theory Spec2Isabelle
  imports Main
begin

section \<open>Data model of \<^verbatim>\<open>src/objects/tag.c\<close>\<close>

text \<open>
  Objects are identified by their address; a \<^verbatim>\<open>tag_t *\<close>, a \<^verbatim>\<open>client_t *\<close> and a
  \<^verbatim>\<open>screen_t *\<close> are natural numbers, compared by identity as the C code compares
  pointers. Array lengths and indices are \<^typ>\<open>nat\<close>: the C code keeps them in an
  \<^verbatim>\<open>int\<close>, which an array held in memory never overflows.
\<close>

type_synonym tag_ptr = nat
type_synonym client_ptr = nat
type_synonym screen_ptr = nat

text \<open>
  The values the Lua side can hand to the C functions. A table is the list of its values
  in the order \<^verbatim>\<open>lua_next\<close> traverses them (the code never looks at the keys); a Lua
  table holds no nil, so \<open>LNil\<close> stands only for an absent argument.
\<close>

datatype lua_value =
    LNil
  | LBoolean bool
  | LNumber int
  | LString string
  | LTable "lua_value list"
  | LTag tag_ptr
  | LClient client_ptr

text \<open>
  \<^verbatim>\<open>tag_t\<close>, with the fields that \<^verbatim>\<open>tag.c\<close> reads and writes. \<^verbatim>\<open>lunaL_tag_alloc\<close>
  clears a new tag with \<^verbatim>\<open>p_clear\<close>: no name, not selected, not activated, no clients.
\<close>

record tag_t =
  name :: "string option"
  selected :: bool
  activated :: bool
  clients :: "client_ptr list"

definition lunaL_tag_alloc :: tag_t where
  "lunaL_tag_alloc = \<lparr>name = None, selected = False, activated = False, clients = []\<rparr>"

text \<open>
  The memory the tag code works on: \<^verbatim>\<open>globalconf.tags\<close> (the registry of activated
  tags), \<^verbatim>\<open>globalconf.screens\<close>, \<^verbatim>\<open>globalconf.focus.client\<close> (\<open>None\<close> is \<^verbatim>\<open>NULL\<close>),
  the tag objects by address, and \<^verbatim>\<open>c->screen\<close> of every client.
\<close>

record world =
  tags :: "tag_ptr list"
  screens :: "screen_ptr list"
  focus_client :: "client_ptr option"
  tag_obj :: "tag_ptr \<Rightarrow> tag_t"
  client_screen :: "client_ptr \<Rightarrow> screen_ptr"

text \<open>
  The calls that leave \<^verbatim>\<open>tag.c\<close>, in the order they are made. A signal emission runs
  its handlers at once, so the emission is logged together with the memory the handlers
  find when they run.
\<close>

datatype call =
    Banning_need_update
  | Screen_update_workarea screen_ptr
  | Ewmh_client_update_desktop client_ptr
  | Ewmh_update_net_numbers_of_desktop
  | Ewmh_update_net_desktop_names
  | Luna_object_ref tag_ptr
  | Luna_object_unref tag_ptr
  | Luna_object_emit_signal lua_value string "lua_value list" world

record state =
  wld :: world
  trace :: "call list"

datatype error = Type_error string

type_synonym 'a result = "(error + 'a) \<times> state"

section \<open>The collaborators\<close>

text \<open>
  Modelled from the spec: \<^verbatim>\<open>banning_need_update\<close>, \<^verbatim>\<open>screen_update_workarea\<close>,
  \<^verbatim>\<open>ewmh_client_update_desktop\<close>, \<^verbatim>\<open>ewmh_update_net_numbers_of_desktop\<close>,
  \<^verbatim>\<open>ewmh_update_net_desktop_names\<close>, \<^verbatim>\<open>luna_object_ref\<close> and \<^verbatim>\<open>luna_object_unref\<close>
  are not among the sources. The spec has them as external collaborators that the tag
  code calls and does not own (banning invalidation, workarea recompute for one screen,
  desktop-protocol sync, taking and releasing a reference); each call is appended to
  the log and changes nothing that the tag code reads.
\<close>

definition log_call :: "call \<Rightarrow> state \<Rightarrow> state" where
  "log_call e s = s\<lparr>trace := trace s @ [e]\<rparr>"

definition banning_need_update :: "state \<Rightarrow> state" where
  "banning_need_update s = log_call Banning_need_update s"

definition screen_update_workarea :: "screen_ptr \<Rightarrow> state \<Rightarrow> state" where
  "screen_update_workarea scr s = log_call (Screen_update_workarea scr) s"

definition ewmh_client_update_desktop :: "client_ptr \<Rightarrow> state \<Rightarrow> state" where
  "ewmh_client_update_desktop c s = log_call (Ewmh_client_update_desktop c) s"

definition ewmh_update_net_numbers_of_desktop :: "state \<Rightarrow> state" where
  "ewmh_update_net_numbers_of_desktop s = log_call Ewmh_update_net_numbers_of_desktop s"

definition ewmh_update_net_desktop_names :: "state \<Rightarrow> state" where
  "ewmh_update_net_desktop_names s = log_call Ewmh_update_net_desktop_names s"

definition luna_object_ref :: "tag_ptr \<Rightarrow> state \<Rightarrow> state" where
  "luna_object_ref t s = log_call (Luna_object_ref t) s"

definition luna_object_unref :: "tag_ptr \<Rightarrow> state \<Rightarrow> state" where
  "luna_object_unref t s = log_call (Luna_object_unref t) s"

text \<open>
  The Lua stack is a list with its top at the end. \<open>lua_index\<close> reads the value at a
  positive (from the bottom, starting at 1) or negative (from the top, starting at -1)
  index; an index outside the stack holds no value.
\<close>

definition lua_index :: "lua_value list \<Rightarrow> int \<Rightarrow> lua_value" where
  "lua_index L idx =
     (if 0 < idx \<and> nat idx \<le> length L then L ! (nat idx - 1)
      else if idx < 0 \<and> nat (- idx) \<le> length L then L ! (length L - nat (- idx))
      else LNil)"

definition lua_gettop :: "lua_value list \<Rightarrow> nat" where
  "lua_gettop L = length L"

definition lua_pop :: "lua_value list \<Rightarrow> nat \<Rightarrow> lua_value list" where
  "lua_pop L n = take (length L - n) L"

text \<open>
  \<^verbatim>\<open>lua_insert(L, idx)\<close> with a negative index: the top element moves to the position
  \<open>idx\<close> names, the elements from there on move up by one.
\<close>

definition lua_insert :: "lua_value list \<Rightarrow> int \<Rightarrow> lua_value list" where
  "lua_insert L idx =
     (if idx < 0 \<and> nat (- idx) \<le> length L then
        take (length L - nat (- idx)) (butlast L) @ [last L] @
        drop (length L - nat (- idx)) (butlast L)
      else L)"

text \<open>
  Modelled from the spec: \<^verbatim>\<open>luna_object_emit_signal(L, oud, name, nargs)\<close> is not among
  the sources. The spec describes it as \<open>eventBus.emit(objectRef, eventName, argCount)\<close>:
  it publishes the signal \<open>name\<close> on the object at stack index \<open>oud\<close>, with the \<open>nargs\<close>
  values on top of the stack as arguments, which it takes off the stack.
\<close>

definition luna_object_emit_signal ::
  "lua_value list \<Rightarrow> int \<Rightarrow> string \<Rightarrow> nat \<Rightarrow> state \<Rightarrow> lua_value list \<times> state" where
  "luna_object_emit_signal L oud signame nargs s =
     (lua_pop L nargs,
      log_call (Luna_object_emit_signal (lua_index L oud) signame
              (drop (length L - nargs) L) (wld s)) s)"

text \<open>
  Modelled from the spec: \<^verbatim>\<open>luaC_checkuclass\<close>, \<^verbatim>\<open>luaA_checkboolean\<close> and
  \<^verbatim>\<open>luaA_checktable\<close> are not among the sources. By the spec a value of the wrong kind
  where a tag, a client, a boolean or a table is expected fails the call with a type
  error; a value of the right kind is returned.
\<close>

fun luaC_checkuclass :: "lua_value \<Rightarrow> string \<Rightarrow> error + nat" where
  "luaC_checkuclass (LTag t) cls = (if cls = ''Tag'' then Inr t else Inl (Type_error cls))"
| "luaC_checkuclass (LClient c) cls = (if cls = ''Client'' then Inr c else Inl (Type_error cls))"
| "luaC_checkuclass v cls = Inl (Type_error cls)"

fun luaA_checkboolean :: "lua_value \<Rightarrow> error + bool" where
  "luaA_checkboolean (LBoolean b) = Inr b"
| "luaA_checkboolean v = Inl (Type_error ''boolean'')"

fun luaA_checktable :: "lua_value \<Rightarrow> error + lua_value list" where
  "luaA_checktable (LTable vs) = Inr vs"
| "luaA_checktable v = Inl (Type_error ''table'')"

section \<open>The tag operations\<close>

definition tag_of :: "state \<Rightarrow> tag_ptr \<Rightarrow> tag_t" where
  "tag_of s t = tag_obj (wld s) t"

definition tag_update :: "tag_ptr \<Rightarrow> (tag_t \<Rightarrow> tag_t) \<Rightarrow> state \<Rightarrow> state" where
  "tag_update t f s = s\<lparr>wld := (wld s)\<lparr>tag_obj := (tag_obj (wld s))(t := f (tag_obj (wld s) t))\<rparr>\<rparr>"

text \<open>
  Modelled from the spec: \<^verbatim>\<open>client_array_append\<close>, \<^verbatim>\<open>client_array_take\<close>,
  \<^verbatim>\<open>tag_array_append\<close> and \<^verbatim>\<open>tag_array_take\<close> come from the \<^verbatim>\<open>DO_ARRAY\<close> macro, whose
  definition is not among the sources. By the spec, appending keeps the insertion
  order, and taking the element at an index out leaves the remaining elements in their
  relative order.
\<close>

definition array_take :: "'a list \<Rightarrow> nat \<Rightarrow> 'a list" where
  "array_take xs i = take i xs @ drop (Suc i) xs"

definition client_array_append :: "tag_ptr \<Rightarrow> client_ptr \<Rightarrow> state \<Rightarrow> state" where
  "client_array_append t c s = tag_update t (\<lambda>x. x\<lparr>clients := clients x @ [c]\<rparr>) s"

definition client_array_take :: "tag_ptr \<Rightarrow> nat \<Rightarrow> state \<Rightarrow> state" where
  "client_array_take t i s = tag_update t (\<lambda>x. x\<lparr>clients := array_take (clients x) i\<rparr>) s"

definition tag_array_append :: "tag_ptr \<Rightarrow> state \<Rightarrow> state" where
  "tag_array_append t s = s\<lparr>wld := (wld s)\<lparr>tags := tags (wld s) @ [t]\<rparr>\<rparr>"

definition tag_array_take :: "nat \<Rightarrow> state \<Rightarrow> state" where
  "tag_array_take i s = s\<lparr>wld := (wld s)\<lparr>tags := array_take (tags (wld s)) i\<rparr>\<rparr>"

text \<open>\<^verbatim>\<open>tag_view\<close>: view or unview the tag at stack index \<open>udx\<close>.\<close>

definition tag_view :: "lua_value list \<Rightarrow> int \<Rightarrow> bool \<Rightarrow> state \<Rightarrow> unit result" where
  "tag_view L udx view s =
     (case luaC_checkuclass (lua_index L udx) ''Tag'' of
        Inl e \<Rightarrow> (Inl e, s)
      | Inr tag \<Rightarrow>
          if selected (tag_of s tag) \<noteq> view then
            (let s1 = tag_update tag (\<lambda>x. x\<lparr>selected := view\<rparr>) s;
                 s2 = banning_need_update s1;
                 s3 = foldl (\<lambda>a scr. screen_update_workarea scr a) s2 (screens (wld s2));
                 s4 = snd (luna_object_emit_signal L udx '':property.selected'' 0 s3)
             in (Inr (), s4))
          else (Inr (), s))"

text \<open>
  \<^verbatim>\<open>tag_client_emit_signal\<close>. The function pushes onto whatever the Lua stack holds and
  addresses only what it pushed, so the stack here is the part above its entry level.
\<close>

definition tag_client_emit_signal :: "tag_ptr \<Rightarrow> client_ptr \<Rightarrow> string \<Rightarrow> state \<Rightarrow> state" where
  "tag_client_emit_signal t c signame s =
     (let L1 = [LClient c];
          L2 = L1 @ [LTag t];
          (L3, s1) = luna_object_emit_signal L2 (- 2) signame 1 s;
          L4 = L3 @ [LTag t];
          L5 = lua_insert L4 (- 2);
          (L6, s2) = luna_object_emit_signal L5 (- 2) signame 1 s1;
          L7 = lua_pop L6 1
      in s2)"

text \<open>\<^verbatim>\<open>is_client_tagged\<close>: the loop over the indices of \<^verbatim>\<open>t->clients\<close>, from \<open>i\<close> on.\<close>

function is_client_tagged_from :: "client_ptr \<Rightarrow> client_ptr list \<Rightarrow> nat \<Rightarrow> bool" where
  "is_client_tagged_from c tab i =
     (if i < length tab then (if tab ! i = c then True else is_client_tagged_from c tab (i + 1))
      else False)"
  by pat_completeness auto
termination
  by (relation "measure (\<lambda>(c, tab, i). length tab - i)") auto

declare is_client_tagged_from.simps [simp del]

definition is_client_tagged :: "client_ptr \<Rightarrow> tag_ptr \<Rightarrow> state \<Rightarrow> bool" where
  "is_client_tagged c t s = is_client_tagged_from c (clients (tag_of s t)) 0"

text \<open>\<^verbatim>\<open>tag_client\<close>: tag the client \<open>c\<close> with the tag on top of the stack.\<close>

definition tag_client :: "lua_value \<Rightarrow> client_ptr \<Rightarrow> state \<Rightarrow> unit result" where
  "tag_client v c s =
     (case luaC_checkuclass v ''Tag'' of
        Inl e \<Rightarrow> (Inl e, s)
      | Inr t \<Rightarrow>
          (let s1 = luna_object_ref t s in
           if is_client_tagged c t s1 then (Inr (), luna_object_unref t s1)
           else
             (let s2 = client_array_append t c s1;
                  s3 = ewmh_client_update_desktop c s2;
                  s4 = banning_need_update s3;
                  s5 = screen_update_workarea (client_screen (wld s4) c) s4;
                  s6 = tag_client_emit_signal t c ''tagged'' s5
              in (Inr (), s6))))"

text \<open>\<^verbatim>\<open>untag_client\<close>: the loop over the indices of \<^verbatim>\<open>t->clients\<close>, from \<open>i\<close> on.\<close>

function untag_client_from :: "client_ptr \<Rightarrow> tag_ptr \<Rightarrow> nat \<Rightarrow> state \<Rightarrow> state" where
  "untag_client_from c t i s =
     (if i < length (clients (tag_of s t)) then
        (if clients (tag_of s t) ! i = c then
           (let s1 = client_array_take t i s;
                s2 = banning_need_update s1;
                s3 = ewmh_client_update_desktop c s2;
                s4 = screen_update_workarea (client_screen (wld s3) c) s3;
                s5 = tag_client_emit_signal t c ''untagged'' s4
            in luna_object_unref t s5)
         else untag_client_from c t (i + 1) s)
      else s)"
  by pat_completeness auto
termination
  by (relation "measure (\<lambda>(c, t, i, s). length (clients (tag_of s t)) - i)") auto

declare untag_client_from.simps [simp del]

definition untag_client :: "client_ptr \<Rightarrow> tag_ptr \<Rightarrow> state \<Rightarrow> state" where
  "untag_client c t s = untag_client_from c t 0 s"

text \<open>
  \<^verbatim>\<open>tags_get_current_or_first_selected_index\<close>: the two \<^verbatim>\<open>foreach\<close> loops over
  \<^verbatim>\<open>globalconf.tags\<close>, from index \<open>i\<close> on; \<open>None\<close> when a loop ends without returning.
\<close>

function current_index_from :: "client_ptr \<Rightarrow> nat \<Rightarrow> state \<Rightarrow> nat option" where
  "current_index_from fc i s =
     (if i < length (tags (wld s)) then
        (if selected (tag_of s (tags (wld s) ! i)) \<and> is_client_tagged fc (tags (wld s) ! i) s
         then Some i
         else current_index_from fc (i + 1) s)
      else None)"
  by pat_completeness auto
termination
  by (relation "measure (\<lambda>(fc, i, s). length (tags (wld s)) - i)") auto

declare current_index_from.simps [simp del]

function first_selected_index_from :: "nat \<Rightarrow> state \<Rightarrow> nat option" where
  "first_selected_index_from i s =
     (if i < length (tags (wld s)) then
        (if selected (tag_of s (tags (wld s) ! i)) then Some i
         else first_selected_index_from (i + 1) s)
      else None)"
  by pat_completeness auto
termination
  by (relation "measure (\<lambda>(i, s). length (tags (wld s)) - i)") auto

declare first_selected_index_from.simps [simp del]

definition tags_get_current_or_first_selected_index :: "state \<Rightarrow> nat" where
  "tags_get_current_or_first_selected_index s =
     (case (case focus_client (wld s) of
              Some fc \<Rightarrow> current_index_from fc 0 s
            | None \<Rightarrow> None) of
        Some i \<Rightarrow> i
      | None \<Rightarrow>
          (case first_selected_index_from 0 s of
             Some i \<Rightarrow> i
           | None \<Rightarrow> 0))"

text \<open>
  \<^verbatim>\<open>luaA_tag_clients\<close>. The inner \<^verbatim>\<open>while (lua_next(L, 2))\<close> loop of the first pass looks
  for the client \<open>c\<close> in the table and checks every value it passes.
\<close>

fun luaA_tag_clients_found :: "lua_value list \<Rightarrow> client_ptr \<Rightarrow> error + bool" where
  "luaA_tag_clients_found [] c = Inr False"
| "luaA_tag_clients_found (v # vs) c =
     (case luaC_checkuclass v ''Client'' of
        Inl e \<Rightarrow> Inl e
      | Inr tc \<Rightarrow> if tc \<noteq> c then luaA_tag_clients_found vs c else Inr True)"

text \<open>
  The first pass, from index \<open>j\<close> on: a client that the table does not name is untagged,
  and \<^verbatim>\<open>j--\<close> with the loop's \<^verbatim>\<open>j++\<close> keeps the index where it is.
\<close>

function luaA_tag_clients_untag ::
  "tag_ptr \<Rightarrow> lua_value list \<Rightarrow> nat \<Rightarrow> state \<Rightarrow> unit result" where
  "luaA_tag_clients_untag tag tbl j s =
     (if j < length (clients (tag_of s tag)) then
        (let c = clients (tag_of s tag) ! j in
         case luaA_tag_clients_found tbl c of
           Inl e \<Rightarrow> (Inl e, s)
         | Inr found \<Rightarrow>
             if \<not> found then luaA_tag_clients_untag tag tbl j (untag_client c tag s)
             else luaA_tag_clients_untag tag tbl (j + 1) s)
      else (Inr (), s))"
  by pat_completeness auto
termination
proof (relation "measure (\<lambda>(tag, tbl, j, s). length (clients (tag_of s tag)) - j)")
  show "wf (measure (\<lambda>(tag, tbl, j, s). length (clients (tag_of s tag)) - j))"
    by simp
next
  fix tag :: tag_ptr and tbl :: "lua_value list" and j :: nat and s :: state
    and x :: client_ptr and x2 :: bool
  assume j: "j < length (clients (tag_of s tag))"
    and x: "x = clients (tag_of s tag) ! j"
  have shrink: "c \<in> set (drop i (clients (tag_of s' t))) \<Longrightarrow>
      Suc (length (clients (tag_of (untag_client_from c t i s') t))) = length (clients (tag_of s' t))"
    for c t i s'
  proof (induction c t i s' rule: untag_client_from.induct)
    case (1 c t i s')
    show ?case
    proof (cases "i < length (clients (tag_of s' t))")
      case False
      with "1.prems" show ?thesis by simp
    next
      case True
      note lt = this
      show ?thesis
      proof (cases "clients (tag_of s' t) ! i = c")
        case True
        with lt show ?thesis
          by (subst untag_client_from.simps)
             (simp add: Let_def client_array_take_def tag_update_def tag_of_def
                array_take_def luna_object_unref_def tag_client_emit_signal_def
                luna_object_emit_signal_def screen_update_workarea_def log_call_def
                ewmh_client_update_desktop_def banning_need_update_def min_def)
      next
        case False
        from lt have "drop i (clients (tag_of s' t)) =
            clients (tag_of s' t) ! i # drop (Suc i) (clients (tag_of s' t))"
          by (simp add: Cons_nth_drop_Suc)
        with "1.prems" False have "c \<in> set (drop (i + 1) (clients (tag_of s' t)))"
          by auto
        with "1.IH" lt False show ?thesis
          by (subst untag_client_from.simps) simp
      qed
    qed
  qed
  from j x have "x \<in> set (drop 0 (clients (tag_of s tag)))"
    by simp
  from shrink [OF this] j
  show "((tag, tbl, j, untag_client x tag s), tag, tbl, j, s)
      \<in> measure (\<lambda>(tag, tbl, j, s). length (clients (tag_of s tag)) - j)"
    by (simp add: untag_client_def)
next
  fix tag :: tag_ptr and tbl :: "lua_value list" and j :: nat and s :: state
    and x :: client_ptr and x2 :: bool
  assume "j < length (clients (tag_of s tag))"
  then show "((tag, tbl, j + 1, s), tag, tbl, j, s)
      \<in> measure (\<lambda>(tag, tbl, j, s). length (clients (tag_of s tag)) - j)"
    by simp
qed

declare luaA_tag_clients_untag.simps [simp del]

text \<open>
  The second pass: every value of the table is checked and tagged, with the tag (stack
  index 1, pushed on top) as \<^verbatim>\<open>tag_client\<close> expects it.
\<close>

fun luaA_tag_clients_tag :: "lua_value \<Rightarrow> lua_value list \<Rightarrow> state \<Rightarrow> unit result" where
  "luaA_tag_clients_tag tagv [] s = (Inr (), s)"
| "luaA_tag_clients_tag tagv (v # vs) s =
     (case luaC_checkuclass v ''Client'' of
        Inl e \<Rightarrow> (Inl e, s)
      | Inr c \<Rightarrow>
          (case tag_client tagv c s of
             (Inl e, s1) \<Rightarrow> (Inl e, s1)
           | (Inr u, s1) \<Rightarrow> luaA_tag_clients_tag tagv vs s1))"

definition luaA_tag_clients :: "lua_value list \<Rightarrow> state \<Rightarrow> lua_value list result" where
  "luaA_tag_clients L s =
     (case luaC_checkuclass (lua_index L 1) ''Tag'' of
        Inl e \<Rightarrow> (Inl e, s)
      | Inr tag \<Rightarrow>
          (case (if lua_gettop L = 2 then
                   (case luaA_checktable (lua_index L 2) of
                      Inl e \<Rightarrow> (Inl e, s)
                    | Inr tbl \<Rightarrow>
                        (case luaA_tag_clients_untag tag tbl 0 s of
                           (Inl e, s1) \<Rightarrow> (Inl e, s1)
                         | (Inr u, s1) \<Rightarrow> luaA_tag_clients_tag (lua_index L 1) tbl s1))
                 else (Inr (), s)) of
             (Inl e, s2) \<Rightarrow> (Inl e, s2)
           | (Inr u, s2) \<Rightarrow> (Inr [LTable (map LClient (clients (tag_of s2 tag)))], s2)))"

text \<open>
  The property getters and setters. Each returns the values it pushes as its results.
\<close>

definition lunaL_getter_tag_selected :: "lua_value list \<Rightarrow> state \<Rightarrow> lua_value list result" where
  "lunaL_getter_tag_selected L s =
     (case luaC_checkuclass (lua_index L 1) ''Tag'' of
        Inl e \<Rightarrow> (Inl e, s)
      | Inr tag \<Rightarrow> (Inr [LBoolean (selected (tag_of s tag))], s))"

definition lunaL_setter_tag_selected :: "lua_value list \<Rightarrow> state \<Rightarrow> lua_value list result" where
  "lunaL_setter_tag_selected L s =
     (case luaA_checkboolean (lua_index L 2) of
        Inl e \<Rightarrow> (Inl e, s)
      | Inr view \<Rightarrow>
          (case tag_view L 1 view s of
             (Inl e, s1) \<Rightarrow> (Inl e, s1)
           | (Inr u, s1) \<Rightarrow> (Inr [], s1)))"

definition lunaL_getter_tag_activated :: "lua_value list \<Rightarrow> state \<Rightarrow> lua_value list result" where
  "lunaL_getter_tag_activated L s =
     (case luaC_checkuclass (lua_index L 1) ''Tag'' of
        Inl e \<Rightarrow> (Inl e, s)
      | Inr tag \<Rightarrow> (Inr [LBoolean (selected (tag_of s tag))], s))"

text \<open>The loop of the activated setter that takes the tag out of \<^verbatim>\<open>globalconf.tags\<close>.\<close>

function lunaL_setter_tag_activated_take :: "tag_ptr \<Rightarrow> nat \<Rightarrow> state \<Rightarrow> state" where
  "lunaL_setter_tag_activated_take tag i s =
     (if i < length (tags (wld s)) then
        (if tags (wld s) ! i = tag then tag_array_take i s
         else lunaL_setter_tag_activated_take tag (i + 1) s)
      else s)"
  by pat_completeness auto
termination
  by (relation "measure (\<lambda>(tag, i, s). length (tags (wld s)) - i)") auto

declare lunaL_setter_tag_activated_take.simps [simp del]

definition lunaL_setter_tag_activated :: "lua_value list \<Rightarrow> state \<Rightarrow> lua_value list result" where
  "lunaL_setter_tag_activated L s =
     (case luaC_checkuclass (lua_index L 1) ''Tag'' of
        Inl e \<Rightarrow> (Inl e, s)
      | Inr tag \<Rightarrow>
          (case luaA_checkboolean (lua_index L 2) of
             Inl e \<Rightarrow> (Inl e, s)
           | Inr act \<Rightarrow>
               if act = activated (tag_of s tag) then (Inr [], s)
               else
                 (let s1 = tag_update tag (\<lambda>x. x\<lparr>activated := act\<rparr>) s;
                      s2 = (if act then tag_array_append tag (luna_object_ref tag s1)
                            else
                              (let s1a = lunaL_setter_tag_activated_take tag 0 s1;
                                   s1b = (if selected (tag_of s1a tag) then
                                            (let s1c = tag_update tag (\<lambda>x. x\<lparr>selected := False\<rparr>) s1a;
                                                 s1d = snd (luna_object_emit_signal L 1
                                                              '':property.selected'' 0 s1c)
                                             in banning_need_update s1d)
                                          else s1a)
                               in luna_object_unref tag s1b));
                      s3 = ewmh_update_net_numbers_of_desktop s2;
                      s4 = ewmh_update_net_desktop_names s3;
                      s5 = snd (luna_object_emit_signal L 1 '':property.activated'' 0 s4)
                  in (Inr [], s5))))"

section \<open>The public operations\<close>

text \<open>
  The operations the spec names, as calls of the functions above: \<open>activate\<close> and
  \<open>deactivate\<close> are the activated setter with \<open>true\<close> and \<open>false\<close>, \<open>set_selected\<close> is the
  selected setter, \<open>set_clients\<close> is the \<open>clients\<close> method with a table.
\<close>

definition activate :: "tag_ptr \<Rightarrow> state \<Rightarrow> lua_value list result" where
  "activate t s = lunaL_setter_tag_activated [LTag t, LBoolean True] s"

definition deactivate :: "tag_ptr \<Rightarrow> state \<Rightarrow> lua_value list result" where
  "deactivate t s = lunaL_setter_tag_activated [LTag t, LBoolean False] s"

definition set_selected :: "tag_ptr \<Rightarrow> bool \<Rightarrow> state \<Rightarrow> lua_value list result" where
  "set_selected t b s = lunaL_setter_tag_selected [LTag t, LBoolean b] s"

definition set_clients :: "tag_ptr \<Rightarrow> lua_value list \<Rightarrow> state \<Rightarrow> lua_value list result" where
  "set_clients t R s = luaA_tag_clients [LTag t, LTable R] s"

datatype op =
    Activate tag_ptr
  | Deactivate tag_ptr
  | Set_selected tag_ptr bool
  | Tag_client tag_ptr client_ptr
  | Untag_client client_ptr tag_ptr
  | Set_clients tag_ptr "lua_value list"

fun exec_op :: "op \<Rightarrow> state \<Rightarrow> state" where
  "exec_op (Activate t) s = snd (activate t s)"
| "exec_op (Deactivate t) s = snd (deactivate t s)"
| "exec_op (Set_selected t b) s = snd (set_selected t b s)"
| "exec_op (Tag_client t c) s = snd (tag_client (LTag t) c s)"
| "exec_op (Untag_client c t) s = untag_client c t s"
| "exec_op (Set_clients t R) s = snd (set_clients t R s)"

fun exec_ops :: "op list \<Rightarrow> state \<Rightarrow> state" where
  "exec_ops [] s = s"
| "exec_ops (x # xs) s = exec_ops xs (exec_op x s)"

section \<open>A start state and observers for the statements\<close>

text \<open>
  The state right after start-up: no tag is activated, every tag object is as
  \<^verbatim>\<open>lunaL_tag_alloc\<close> leaves it, one screen, no focused client, nothing called yet.
\<close>

definition init_world :: world where
  "init_world = \<lparr>tags = [], screens = [0], focus_client = None,
     tag_obj = (\<lambda>t. lunaL_tag_alloc), client_screen = (\<lambda>c. 0)\<rparr>"

definition init_state :: state where
  "init_state = \<lparr>wld = init_world, trace = []\<rparr>"

text \<open>The signal emissions among the calls.\<close>

fun is_signal :: "call \<Rightarrow> bool" where
  "is_signal (Luna_object_emit_signal obj signame args w) = True"
| "is_signal e = False"

text \<open>
  A state with three activated tags and the focused client 7: tag 0 is selected and does
  not hold the client, tag 1 holds it and is not selected, tag 2 is selected and holds it.
\<close>

definition focus_state :: state where
  "focus_state =
     \<lparr>wld = \<lparr>tags = [0, 1, 2], screens = [0], focus_client = Some 7,
              tag_obj = (\<lambda>t. lunaL_tag_alloc)
                (0 := \<lparr>name = None, selected = True, activated = True, clients = []\<rparr>,
                 1 := \<lparr>name = None, selected = False, activated = True, clients = [7]\<rparr>,
                 2 := \<lparr>name = None, selected = True, activated = True, clients = [7]\<rparr>),
              client_screen = (\<lambda>c. 0)\<rparr>,
      trace = []\<rparr>"

definition unfocused_state :: state where
  "unfocused_state = focus_state\<lparr>wld := (wld focus_state)\<lparr>focus_client := None\<rparr>\<rparr>"

text \<open>
  Invariant I3 at one tag: a tag that is not activated is not selected.
\<close>

definition inactive_implies_unselected :: "state \<Rightarrow> tag_ptr \<Rightarrow> bool" where
  "inactive_implies_unselected s t = (\<not> activated (tag_of s t) \<longrightarrow> \<not> selected (tag_of s t))"

text \<open>The one call that selects a tag which is not activated.\<close>

fun selects_inactive :: "op \<Rightarrow> state \<Rightarrow> bool" where
  "selects_inactive (Set_selected t b) s = (b \<and> \<not> activated (tag_of s t))"
| "selects_inactive x s = False"

text \<open>
  The elements of a list in the order of their first occurrence, each once.
\<close>

definition first_occurrences :: "'a list \<Rightarrow> 'a list" where
  "first_occurrences xs = rev (remdups (rev xs))"

text \<open>
  Invariant I2: the registry holds no tag twice, and holds exactly the activated tags.
\<close>

definition registry_consistent :: "state \<Rightarrow> bool" where
  "registry_consistent s =
     (distinct (tags (wld s)) \<and> (\<forall>t. t \<in> set (tags (wld s)) \<longleftrightarrow> activated (tag_of s t)))"

section \<open>Facts about the operations\<close>

subsection \<open>Projections of the collaborators\<close>

lemma wld_log_call [simp]: "wld (log_call e s) = wld s"
  by (simp add: log_call_def)

lemma trace_log_call [simp]: "trace (log_call e s) = trace s @ [e]"
  by (simp add: log_call_def)

lemma tag_of_log_call [simp]: "tag_of (log_call e s) t = tag_of s t"
  by (simp add: tag_of_def)

lemma wld_tag_update:
  "wld (tag_update t f s) = (wld s)\<lparr>tag_obj := (tag_obj (wld s))(t := f (tag_of s t))\<rparr>"
  by (simp add: tag_update_def tag_of_def)

lemma trace_tag_update [simp]: "trace (tag_update t f s) = trace s"
  by (simp add: tag_update_def)

lemma tag_of_tag_update [simp]:
  "tag_of (tag_update t f s) t' = (if t' = t then f (tag_of s t) else tag_of s t')"
  by (simp add: tag_update_def tag_of_def)

lemma tags_tag_update [simp]: "tags (wld (tag_update t f s)) = tags (wld s)"
  by (simp add: tag_update_def)

lemma client_screen_tag_update [simp]:
  "client_screen (wld (tag_update t f s)) = client_screen (wld s)"
  by (simp add: tag_update_def)

lemma screens_tag_update [simp]: "screens (wld (tag_update t f s)) = screens (wld s)"
  by (simp add: tag_update_def)

lemma focus_tag_update [simp]: "focus_client (wld (tag_update t f s)) = focus_client (wld s)"
  by (simp add: tag_update_def)

lemma tag_update_cong:
  "f (tag_of s t) = g (tag_of s t) \<Longrightarrow> tag_update t f s = tag_update t g s"
  by (simp add: tag_update_def tag_of_def)

lemmas collab_defs = banning_need_update_def screen_update_workarea_def
  ewmh_client_update_desktop_def ewmh_update_net_numbers_of_desktop_def
  ewmh_update_net_desktop_names_def luna_object_ref_def luna_object_unref_def

lemma tag_client_emit_signal_eq:
  "tag_client_emit_signal t c signame s =
     log_call (Luna_object_emit_signal (LTag t) signame [LClient c] (wld s))
       (log_call (Luna_object_emit_signal (LClient c) signame [LTag t] (wld s)) s)"
  by (simp add: tag_client_emit_signal_def luna_object_emit_signal_def lua_index_def
      lua_pop_def lua_insert_def)

subsection \<open>The membership scans\<close>

lemma is_client_tagged_from_iff:
  "is_client_tagged_from c tab i \<longleftrightarrow> c \<in> set (drop i tab)"
proof (induction c tab i rule: is_client_tagged_from.induct)
  case (1 c tab i)
  show ?case
  proof (cases "i < length tab")
    case False
    then show ?thesis by (subst is_client_tagged_from.simps) simp
  next
    case True
    then have d: "drop i tab = tab ! i # drop (Suc i) tab"
      by (simp add: Cons_nth_drop_Suc)
    from True "1.IH" show ?thesis
      by (subst is_client_tagged_from.simps) (auto simp: d)
  qed
qed

lemma is_client_tagged_iff: "is_client_tagged c t s \<longleftrightarrow> c \<in> set (clients (tag_of s t))"
  by (simp add: is_client_tagged_def is_client_tagged_from_iff)

lemma array_take_first:
  "i < length xs \<Longrightarrow> xs ! i = c \<Longrightarrow> c \<notin> set (take i xs) \<Longrightarrow> array_take xs i = remove1 c xs"
proof (induction xs arbitrary: i)
  case Nil
  then show ?case by simp
next
  case (Cons x xs)
  show ?case
  proof (cases i)
    case 0
    with Cons.prems show ?thesis by (simp add: array_take_def)
  next
    case (Suc k)
    with Cons.prems have k: "k < length xs" "xs ! k = c" "c \<notin> set (take k xs)" and "x \<noteq> c"
      by auto
    from Cons.IH [OF k] \<open>x \<noteq> c\<close> Suc show ?thesis by (simp add: array_take_def)
  qed
qed

text \<open>What \<open>untag_client\<close> does when the client is a member, and when it is not.\<close>

lemma untag_client_from_eq:
  "c \<notin> set (take i (clients (tag_of s t))) \<Longrightarrow>
   untag_client_from c t i s =
     (if c \<in> set (drop i (clients (tag_of s t))) then
        luna_object_unref t
          (tag_client_emit_signal t c ''untagged''
            (screen_update_workarea (client_screen (wld s) c)
              (ewmh_client_update_desktop c
                (banning_need_update
                  (tag_update t (\<lambda>x. x\<lparr>clients := remove1 c (clients x)\<rparr>) s)))))
      else s)"
proof (induction c t i s rule: untag_client_from.induct)
  case (1 c t i s)
  show ?case
  proof (cases "i < length (clients (tag_of s t))")
    case False
    then show ?thesis by (subst untag_client_from.simps) simp
  next
    case True
    then have d: "drop i (clients (tag_of s t)) =
        clients (tag_of s t) ! i # drop (Suc i) (clients (tag_of s t))"
      by (simp add: Cons_nth_drop_Suc)
    show ?thesis
    proof (cases "clients (tag_of s t) ! i = c")
      case hit: True
      from True hit "1.prems"
      have "array_take (clients (tag_of s t)) i = remove1 c (clients (tag_of s t))"
        by (rule array_take_first)
      then have "tag_update t (\<lambda>x. x\<lparr>clients := array_take (clients x) i\<rparr>) s =
          tag_update t (\<lambda>x. x\<lparr>clients := remove1 c (clients x)\<rparr>) s"
        by (intro tag_update_cong) simp
      with True hit show ?thesis
        by (subst untag_client_from.simps)
           (simp add: d Let_def client_array_take_def collab_defs)
    next
      case miss: False
      from True miss "1.prems"
      have "c \<notin> set (take (i + 1) (clients (tag_of s t)))"
        by (simp add: take_Suc_conv_app_nth)
      with "1.IH" True miss show ?thesis
        by (subst untag_client_from.simps) (simp add: d)
    qed
  qed
qed

lemma untag_client_eq:
  "untag_client c t s =
     (if c \<in> set (clients (tag_of s t)) then
        luna_object_unref t
          (tag_client_emit_signal t c ''untagged''
            (screen_update_workarea (client_screen (wld s) c)
              (ewmh_client_update_desktop c
                (banning_need_update
                  (tag_update t (\<lambda>x. x\<lparr>clients := remove1 c (clients x)\<rparr>) s)))))
      else s)"
  using untag_client_from_eq [of c 0 s t] by (simp add: untag_client_def)

lemma tag_client_eq:
  "tag_client (LTag t) c s =
     (Inr (),
      if c \<in> set (clients (tag_of s t)) then luna_object_unref t (luna_object_ref t s)
      else tag_client_emit_signal t c ''tagged''
             (screen_update_workarea (client_screen (wld s) c)
               (banning_need_update
                 (ewmh_client_update_desktop c
                   (tag_update t (\<lambda>x. x\<lparr>clients := clients x @ [c]\<rparr>)
                     (luna_object_ref t s))))))"
  by (simp add: tag_client_def is_client_tagged_iff Let_def client_array_append_def collab_defs)

lemma tag_client_not_tag:
  "\<forall>t. v \<noteq> LTag t \<Longrightarrow> tag_client v c s = (Inl (Type_error ''Tag''), s)"
  by (cases v) (simp_all add: tag_client_def)


lemma tag_of_untag_client:
  "tag_of (untag_client c t s) t' =
     (if t' = t then (tag_of s t)\<lparr>clients := remove1 c (clients (tag_of s t))\<rparr> else tag_of s t')"
  by (simp add: untag_client_eq tag_client_emit_signal_eq collab_defs remove1_idem)

lemma clients_untag_client:
  "clients (tag_of (untag_client c t s) t') =
     (if t' = t then remove1 c (clients (tag_of s t)) else clients (tag_of s t'))"
  by (simp add: tag_of_untag_client)

lemma tags_untag_client [simp]: "tags (wld (untag_client c t s)) = tags (wld s)"
  by (simp add: untag_client_eq tag_client_emit_signal_eq collab_defs)

lemma tag_of_tag_client:
  "tag_of (snd (tag_client (LTag t) c s)) t' =
     (if t' = t \<and> c \<notin> set (clients (tag_of s t))
      then (tag_of s t)\<lparr>clients := clients (tag_of s t) @ [c]\<rparr> else tag_of s t')"
  by (simp add: tag_client_eq tag_client_emit_signal_eq collab_defs)

lemma clients_tag_client:
  "clients (tag_of (snd (tag_client (LTag t) c s)) t') =
     (if t' = t \<and> c \<notin> set (clients (tag_of s t))
      then clients (tag_of s t) @ [c] else clients (tag_of s t'))"
  by (simp add: tag_of_tag_client)

lemma tags_tag_client [simp]: "tags (wld (snd (tag_client v c s))) = tags (wld s)"
  by (cases v) (simp_all add: tag_client_eq tag_client_emit_signal_eq collab_defs tag_client_not_tag)

lemma fst_tag_client [simp]: "fst (tag_client (LTag t) c s) = Inr ()"
  by (simp add: tag_client_eq)

subsection \<open>The registry scan of the activated setter\<close>

lemma activated_take_eq:
  "tag \<notin> set (take i (tags (wld s))) \<Longrightarrow>
   lunaL_setter_tag_activated_take tag i s = s\<lparr>wld := (wld s)\<lparr>tags := remove1 tag (tags (wld s))\<rparr>\<rparr>"
proof (induction tag i s rule: lunaL_setter_tag_activated_take.induct)
  case (1 tag i s)
  show ?case
  proof (cases "i < length (tags (wld s))")
    case False
    with "1.prems" have "tag \<notin> set (tags (wld s))" by simp
    with False show ?thesis
      by (subst lunaL_setter_tag_activated_take.simps) (simp add: remove1_idem)
  next
    case True
    show ?thesis
    proof (cases "tags (wld s) ! i = tag")
      case hit: True
      from True hit "1.prems" have "array_take (tags (wld s)) i = remove1 tag (tags (wld s))"
        by (rule array_take_first)
      with True hit show ?thesis
        by (subst lunaL_setter_tag_activated_take.simps) (simp add: tag_array_take_def)
    next
      case miss: False
      from True miss "1.prems" have "tag \<notin> set (take (i + 1) (tags (wld s)))"
        by (simp add: take_Suc_conv_app_nth)
      with "1.IH" True miss show ?thesis
        by (subst lunaL_setter_tag_activated_take.simps) simp
    qed
  qed
qed

lemma not_in_remove1_once: "count_list xs x \<le> 1 \<Longrightarrow> x \<notin> set (remove1 x xs)"
  by (induction xs) (auto simp: count_list_0_iff split: if_splits)

subsection \<open>The start state\<close>

lemma tag_of_init [simp]: "tag_of init_state t = lunaL_tag_alloc"
  by (simp add: init_state_def init_world_def tag_of_def)

lemma clients_alloc [simp]: "clients lunaL_tag_alloc = []"
  and selected_alloc [simp]: "selected lunaL_tag_alloc = False"
  and activated_alloc [simp]: "activated lunaL_tag_alloc = False"
  by (simp_all add: lunaL_tag_alloc_def)

lemma tags_init [simp]: "tags (wld init_state) = []"
  by (simp add: init_state_def init_world_def)

subsection \<open>Activation, deactivation and selection\<close>

lemma activate_eq:
  "activate t s =
     (Inr [],
      if activated (tag_of s t) then s
      else
        (let w' = (wld s)\<lparr>tags := tags (wld s) @ [t],
                     tag_obj := (tag_obj (wld s))(t := (tag_of s t)\<lparr>activated := True\<rparr>)\<rparr>
         in \<lparr>wld = w',
             trace = trace s @
               [Luna_object_ref t, Ewmh_update_net_numbers_of_desktop,
                Ewmh_update_net_desktop_names,
                Luna_object_emit_signal (LTag t) '':property.activated'' [] w']\<rparr>))"
  by (simp add: activate_def lunaL_setter_tag_activated_def lua_index_def Let_def collab_defs
      luna_object_emit_signal_def tag_array_append_def log_call_def tag_update_def tag_of_def)

lemma deactivate_eq:
  "deactivate t s =
     (Inr [],
      if \<not> activated (tag_of s t) then s
      else
        (let w' = (wld s)\<lparr>tags := remove1 t (tags (wld s)),
                     tag_obj := (tag_obj (wld s))(t := (tag_of s t)\<lparr>selected := False, activated := False\<rparr>)\<rparr>
         in \<lparr>wld = w',
             trace = trace s @
               (if selected (tag_of s t)
                then [Luna_object_emit_signal (LTag t) '':property.selected'' [] w', Banning_need_update]
                else []) @
               [Luna_object_unref t, Ewmh_update_net_numbers_of_desktop,
                Ewmh_update_net_desktop_names,
                Luna_object_emit_signal (LTag t) '':property.activated'' [] w']\<rparr>))"
  apply (simp add: deactivate_def lunaL_setter_tag_activated_def lua_index_def Let_def collab_defs
      luna_object_emit_signal_def activated_take_eq)
  apply (auto simp add: log_call_def tag_update_def tag_of_def Let_def
      intro!: state.equality world.equality tag_t.equality arg_cong [where f = "fun_upd f t" for f t])
  done


lemma foldl_workarea:
  "foldl (\<lambda>a scr. screen_update_workarea scr a) s scrs =
     s\<lparr>trace := trace s @ map Screen_update_workarea scrs\<rparr>"
  by (induction scrs arbitrary: s) (simp_all add: screen_update_workarea_def log_call_def)

lemma set_selected_eq:
  "set_selected t b s =
     (Inr [],
      if selected (tag_of s t) = b then s
      else
        (let w' = (wld s)\<lparr>tag_obj := (tag_obj (wld s))(t := (tag_of s t)\<lparr>selected := b\<rparr>)\<rparr>
         in \<lparr>wld = w',
             trace = trace s @ [Banning_need_update] @
               map Screen_update_workarea (screens (wld s)) @
               [Luna_object_emit_signal (LTag t) '':property.selected'' [] w']\<rparr>))"
  by (simp add: set_selected_def lunaL_setter_tag_selected_def tag_view_def lua_index_def
      Let_def foldl_workarea luna_object_emit_signal_def banning_need_update_def log_call_def
      tag_update_def tag_of_def)

lemma activate_set_selected_init:
  "activated (tag_of (exec_ops [Activate 0, Set_selected 0 True] init_state) 0) \<and>
   selected (tag_of (exec_ops [Activate 0, Set_selected 0 True] init_state) 0) \<and>
   tags (wld (exec_ops [Activate 0, Set_selected 0 True] init_state)) = [0]"
  by (simp add: activate_eq set_selected_eq Let_def tag_of_def
      init_state_def init_world_def lunaL_tag_alloc_def)

subsection \<open>The two scans of the current-tag query\<close>

lemma current_index_from_first:
  "i \<le> k \<Longrightarrow> k < length (tags (wld s)) \<Longrightarrow>
   selected (tag_of s (tags (wld s) ! k)) \<and> fc \<in> set (clients (tag_of s (tags (wld s) ! k))) \<Longrightarrow>
   (\<And>j. i \<le> j \<Longrightarrow> j < k \<Longrightarrow>
      \<not> (selected (tag_of s (tags (wld s) ! j)) \<and> fc \<in> set (clients (tag_of s (tags (wld s) ! j))))) \<Longrightarrow>
   current_index_from fc i s = Some k"
proof (induction fc i s rule: current_index_from.induct)
  case (1 fc i s)
  from "1.prems"(1,2) have lt: "i < length (tags (wld s))" by simp
  show ?case
  proof (cases "selected (tag_of s (tags (wld s) ! i)) \<and> fc \<in> set (clients (tag_of s (tags (wld s) ! i)))")
    case True
    with "1.prems"(1) "1.prems"(4) [of i] have "i = k"
      by (cases "i < k") auto
    with True lt show ?thesis
      by (subst current_index_from.simps) (simp add: is_client_tagged_iff)
  next
    case False
    with "1.prems"(1,3) have "i \<noteq> k" by auto
    with "1.prems"(1) have le: "i + 1 \<le> k" by simp
    have "current_index_from fc (i + 1) s = Some k"
    proof (rule "1.IH")
      show "i < length (tags (wld s))" by (rule lt)
      show "\<not> (selected (tag_of s (tags (wld s) ! i)) \<and> is_client_tagged fc (tags (wld s) ! i) s)"
        using False by (simp add: is_client_tagged_iff)
      show "i + 1 \<le> k" by (rule le)
      show "k < length (tags (wld s))" by (rule "1.prems"(2))
      show "selected (tag_of s (tags (wld s) ! k)) \<and> fc \<in> set (clients (tag_of s (tags (wld s) ! k)))"
        by (rule "1.prems"(3))
      show "\<not> (selected (tag_of s (tags (wld s) ! j)) \<and> fc \<in> set (clients (tag_of s (tags (wld s) ! j))))"
        if "i + 1 \<le> j" "j < k" for j
        using that "1.prems"(4) [of j] by simp
    qed
    with False lt show ?thesis
      by (subst current_index_from.simps) (auto simp: is_client_tagged_iff)
  qed
qed

lemma current_index_from_none:
  "(\<And>j. i \<le> j \<Longrightarrow> j < length (tags (wld s)) \<Longrightarrow>
      \<not> (selected (tag_of s (tags (wld s) ! j)) \<and> fc \<in> set (clients (tag_of s (tags (wld s) ! j))))) \<Longrightarrow>
   current_index_from fc i s = None"
proof (induction fc i s rule: current_index_from.induct)
  case (1 fc i s)
  show ?case
  proof (cases "i < length (tags (wld s))")
    case False
    then show ?thesis by (subst current_index_from.simps) simp
  next
    case True
    with "1.prems" [of i]
    have no: "\<not> (selected (tag_of s (tags (wld s) ! i)) \<and> is_client_tagged fc (tags (wld s) ! i) s)"
      by (simp add: is_client_tagged_iff)
    have "current_index_from fc (i + 1) s = None"
      using True no "1.prems" by (intro "1.IH") simp_all
    with True no show ?thesis
      by (subst current_index_from.simps) simp
  qed
qed

lemma first_selected_index_from_first:
  "i \<le> k \<Longrightarrow> k < length (tags (wld s)) \<Longrightarrow> selected (tag_of s (tags (wld s) ! k)) \<Longrightarrow>
   (\<And>j. i \<le> j \<Longrightarrow> j < k \<Longrightarrow> \<not> selected (tag_of s (tags (wld s) ! j))) \<Longrightarrow>
   first_selected_index_from i s = Some k"
proof (induction i s rule: first_selected_index_from.induct)
  case (1 i s)
  from "1.prems"(1,2) have lt: "i < length (tags (wld s))" by simp
  show ?case
  proof (cases "selected (tag_of s (tags (wld s) ! i))")
    case True
    with "1.prems"(1) "1.prems"(4) [of i] have "i = k"
      by (cases "i < k") auto
    with True lt show ?thesis
      by (subst first_selected_index_from.simps) simp
  next
    case False
    with "1.prems"(1,3) have "i \<noteq> k" by auto
    with "1.prems"(1) have le: "i + 1 \<le> k" by simp
    have "first_selected_index_from (i + 1) s = Some k"
      using lt False le "1.prems"(2,3) "1.prems"(4) by (intro "1.IH") simp_all
    with False lt show ?thesis
      by (subst first_selected_index_from.simps) simp
  qed
qed

lemma first_selected_index_from_none:
  "(\<And>j. i \<le> j \<Longrightarrow> j < length (tags (wld s)) \<Longrightarrow> \<not> selected (tag_of s (tags (wld s) ! j))) \<Longrightarrow>
   first_selected_index_from i s = None"
proof (induction i s rule: first_selected_index_from.induct)
  case (1 i s)
  show ?case
  proof (cases "i < length (tags (wld s))")
    case False
    then show ?thesis by (subst first_selected_index_from.simps) simp
  next
    case True
    with "1.prems" [of i] have no: "\<not> selected (tag_of s (tags (wld s) ! i))"
      by simp
    have "first_selected_index_from (i + 1) s = None"
      using True no "1.prems" by (intro "1.IH") simp_all
    with True no show ?thesis
      by (subst first_selected_index_from.simps) simp
  qed
qed

lemma focus_state_simps:
  "tags (wld focus_state) = [0, 1, 2]"
  "focus_client (wld focus_state) = Some 7"
  "tag_of focus_state 0 = \<lparr>name = None, selected = True, activated = True, clients = []\<rparr>"
  "tag_of focus_state (Suc 0) = \<lparr>name = None, selected = False, activated = True, clients = [7]\<rparr>"
  "tag_of focus_state 2 = \<lparr>name = None, selected = True, activated = True, clients = [7]\<rparr>"
  "tags (wld unfocused_state) = [0, 1, 2]"
  "focus_client (wld unfocused_state) = None"
  "tag_of unfocused_state t = tag_of focus_state t"
  by (simp_all add: focus_state_def unfocused_state_def tag_of_def)

subsection \<open>What the passes of \<open>luaA_tag_clients\<close> preserve\<close>

lemma luaA_tag_clients_untag_preserves:
  assumes step: "\<And>c t s. P s \<Longrightarrow> P (untag_client c t s)"
  shows "P s \<Longrightarrow> P (snd (luaA_tag_clients_untag t tbl j s))"
proof (induction t tbl j s rule: luaA_tag_clients_untag.induct)
  case (1 tag tbl j s)
  show ?case
  proof (cases "j < length (clients (tag_of s tag))")
    case False
    with "1.prems" show ?thesis
      by (subst luaA_tag_clients_untag.simps) simp
  next
    case True
    show ?thesis
    proof (cases "luaA_tag_clients_found tbl (clients (tag_of s tag) ! j)")
      case (Inl e)
      with True "1.prems" show ?thesis
        by (subst luaA_tag_clients_untag.simps) simp
    next
      case (Inr found)
      show ?thesis
      proof (cases found)
        case True
        with "1.IH"(2) [OF \<open>j < length (clients (tag_of s tag))\<close> refl Inr] "1.prems" step
        have "P (snd (luaA_tag_clients_untag tag tbl (j + 1) s))"
          by simp
        with True Inr \<open>j < length (clients (tag_of s tag))\<close> show ?thesis
          by (subst luaA_tag_clients_untag.simps) simp
      next
        case False
        from "1.prems" have "P (untag_client (clients (tag_of s tag) ! j) tag s)"
          by (rule step)
        with "1.IH"(1) [OF True refl Inr] False step
        have "P (snd (luaA_tag_clients_untag tag tbl j
                (untag_client (clients (tag_of s tag) ! j) tag s)))"
          by simp
        with False Inr True show ?thesis
          by (subst luaA_tag_clients_untag.simps) simp
      qed
    qed
  qed
qed

lemma luaA_tag_clients_tag_preserves:
  assumes step: "\<And>c s. P s \<Longrightarrow> P (snd (tag_client v c s))"
  shows "P s \<Longrightarrow> P (snd (luaA_tag_clients_tag v tbl s))"
proof (induction tbl arbitrary: s)
  case Nil
  then show ?case by simp
next
  case (Cons x tbl)
  show ?case
  proof (cases "luaC_checkuclass x ''Client''")
    case (Inl e)
    with Cons.prems show ?thesis by simp
  next
    case (Inr c)
    from Cons.prems have P1: "P (snd (tag_client v c s))" by (rule step)
    obtain r s1 where tc: "tag_client v c s = (r, s1)" by (cases "tag_client v c s")
    with P1 have "P s1" by simp
    then have "P (snd (luaA_tag_clients_tag v tbl s1))" by (rule Cons.IH)
    with Inr tc \<open>P s1\<close> show ?thesis
      by (cases r) simp_all
  qed
qed

lemma luaA_tag_clients_preserves:
  assumes untag: "\<And>c t s. P s \<Longrightarrow> P (untag_client c t s)"
    and tag: "\<And>v c s. P s \<Longrightarrow> P (snd (tag_client v c s))"
    and P: "P s"
  shows "P (snd (luaA_tag_clients L s))"
proof (cases "luaC_checkuclass (lua_index L 1) ''Tag''")
  case (Inl e)
  with P show ?thesis by (simp add: luaA_tag_clients_def)
next
  case (Inr t)
  show ?thesis
  proof (cases "lua_gettop L = 2")
    case False
    with Inr P show ?thesis by (simp add: luaA_tag_clients_def)
  next
    case True
    show ?thesis
    proof (cases "luaA_checktable (lua_index L 2)")
      case (Inl e)
      with Inr True P show ?thesis by (simp add: luaA_tag_clients_def)
    next
      case tbl: (Inr tbl)
      obtain r1 s1 where p1: "luaA_tag_clients_untag t tbl 0 s = (r1, s1)"
        by (cases "luaA_tag_clients_untag t tbl 0 s")
      from luaA_tag_clients_untag_preserves [where P = P and t = t and s = s and tbl = tbl and j = 0] untag P p1
      have P1: "P s1" by simp
      obtain r2 s2 where p2: "luaA_tag_clients_tag (lua_index L 1) tbl s1 = (r2, s2)"
        by (cases "luaA_tag_clients_tag (lua_index L 1) tbl s1")
      from luaA_tag_clients_tag_preserves [where P = P and v = "lua_index L 1" and s = s1 and tbl = tbl] tag P1 p2
      have P2: "P s2" by simp
      from Inr True tbl p1 p2 P1 P2 show ?thesis
        by (cases r1; cases r2) (simp_all add: luaA_tag_clients_def)
    qed
  qed
qed

lemma tag_client_cases:
  "snd (tag_client v c s) = s \<or> (\<exists>t. v = LTag t)"
  by (cases v) (simp_all add: tag_client_def)

subsection \<open>Member lists stay free of duplicates\<close>

lemma distinct_count_le_1: "distinct xs \<Longrightarrow> count_list xs x \<le> 1"
  by (induction xs) auto

lemma distinct_untag_client:
  "distinct (clients (tag_of s t')) \<Longrightarrow> distinct (clients (tag_of (untag_client c t s) t'))"
  by (auto simp: clients_untag_client)

lemma distinct_tag_client:
  "distinct (clients (tag_of s t')) \<Longrightarrow> distinct (clients (tag_of (snd (tag_client v c s)) t'))"
  using tag_client_cases [of v c s] by (auto simp: clients_tag_client)

lemma clients_activate [simp]: "clients (tag_of (snd (activate t s)) t') = clients (tag_of s t')"
  by (simp add: activate_eq Let_def tag_of_def)

lemma clients_deactivate [simp]: "clients (tag_of (snd (deactivate t s)) t') = clients (tag_of s t')"
  by (simp add: deactivate_eq Let_def tag_of_def)

lemma clients_set_selected [simp]:
  "clients (tag_of (snd (set_selected t b s)) t') = clients (tag_of s t')"
  by (simp add: set_selected_eq Let_def tag_of_def)

lemma distinct_exec_op:
  "distinct (clients (tag_of s t)) \<Longrightarrow> distinct (clients (tag_of (exec_op x s) t))"
proof (cases x)
  case (Set_clients t' R)
  assume "distinct (clients (tag_of s t))"
  then have "distinct (clients (tag_of (snd (luaA_tag_clients [LTag t', LTable R] s)) t))"
    by (intro luaA_tag_clients_preserves [where P = "\<lambda>s. distinct (clients (tag_of s t))"]
        distinct_untag_client distinct_tag_client)
  with Set_clients show ?thesis by (simp add: set_clients_def)
qed (simp_all add: distinct_untag_client distinct_tag_client)

subsection \<open>The flags under the operations\<close>

lemma flags_untag_client [simp]:
  "selected (tag_of (untag_client c t s) t') = selected (tag_of s t')"
  "activated (tag_of (untag_client c t s) t') = activated (tag_of s t')"
  by (simp_all add: tag_of_untag_client)

lemma flags_tag_client [simp]:
  "selected (tag_of (snd (tag_client v c s)) t') = selected (tag_of s t')"
  "activated (tag_of (snd (tag_client v c s)) t') = activated (tag_of s t')"
  using tag_client_cases [of v c s] by (auto simp: tag_of_tag_client split: if_splits)

lemma inactive_unselected_untag_client:
  "inactive_implies_unselected s t' \<Longrightarrow> inactive_implies_unselected (untag_client c t s) t'"
  by (simp add: inactive_implies_unselected_def)

lemma inactive_unselected_tag_client:
  "inactive_implies_unselected s t' \<Longrightarrow>
   inactive_implies_unselected (snd (tag_client v c s)) t'"
  by (simp add: inactive_implies_unselected_def)

subsection \<open>Reconciliation with a table of clients\<close>

lemma first_occurrences_Nil [simp]: "first_occurrences [] = []"
  by (simp add: first_occurrences_def)

lemma first_occurrences_Cons:
  "first_occurrences (x # xs) = x # first_occurrences (filter (\<lambda>y. y \<noteq> x) xs)"
proof -
  have "remdups (ys @ [x]) = remdups (filter (\<lambda>y. y \<noteq> x) ys) @ [x]" for ys
    by (induction ys) auto
  then show ?thesis
    by (simp add: first_occurrences_def rev_filter)
qed

lemma set_first_occurrences [simp]: "set (first_occurrences xs) = set xs"
  by (simp add: first_occurrences_def)

lemma luaA_tag_clients_found_clients:
  "luaA_tag_clients_found (map LClient rs) c = Inr (c \<in> set rs)"
  by (induction rs) auto

lemma luaA_tag_clients_untag_clients:
  "tbl = map LClient rs \<Longrightarrow> set (take j (clients (tag_of s t))) \<subseteq> set rs \<Longrightarrow>
   fst (luaA_tag_clients_untag t tbl j s) = Inr () \<and>
   clients (tag_of (snd (luaA_tag_clients_untag t tbl j s)) t) =
     take j (clients (tag_of s t)) @ filter (\<lambda>c. c \<in> set rs) (drop j (clients (tag_of s t)))"
proof (induction t tbl j s rule: luaA_tag_clients_untag.induct)
  case (1 tag tbl j s)
  let ?C = "clients (tag_of s tag)"
  show ?case
  proof (cases "j < length ?C")
    case False
    then show ?thesis
      by (subst (1 2) luaA_tag_clients_untag.simps [of tag tbl j s]) simp
  next
    case True
    note found = luaA_tag_clients_found_clients [of rs "?C ! j"]
    from True have d: "drop j ?C = ?C ! j # drop (Suc j) ?C"
      by (simp add: Cons_nth_drop_Suc)
    show ?thesis
    proof (cases "?C ! j \<in> set rs")
      case mem: True
      from True mem "1.prems"(2) have sub: "set (take (j + 1) ?C) \<subseteq> set rs"
        by (simp add: take_Suc_conv_app_nth)
      from True mem found "1.prems"(1)
      have unf: "luaA_tag_clients_untag tag tbl j s = luaA_tag_clients_untag tag tbl (j + 1) s"
        by (subst luaA_tag_clients_untag.simps [of tag tbl j s]) simp
      from found mem "1.prems"(1)
      have f: "luaA_tag_clients_found tbl (?C ! j) = Inr True"
        by simp
      from "1.IH"(2) [OF True refl f _ "1.prems"(1) sub]
      have "fst (luaA_tag_clients_untag tag tbl (j + 1) s) = Inr () \<and>
        clients (tag_of (snd (luaA_tag_clients_untag tag tbl (j + 1) s)) tag) =
          take (j + 1) ?C @ filter (\<lambda>c. c \<in> set rs) (drop (j + 1) ?C)"
        by simp
      with True mem show ?thesis
        unfolding unf by (simp add: d take_Suc_conv_app_nth)
    next
      case notmem: False
      let ?s1 = "untag_client (?C ! j) tag s"
      from notmem "1.prems"(2) have "?C ! j \<notin> set (take j ?C)"
        by auto
      with True have rem: "remove1 (?C ! j) ?C = take j ?C @ drop (Suc j) ?C"
        using array_take_first [of j ?C "?C ! j"] by (simp add: array_take_def)
      then have C1: "clients (tag_of ?s1 tag) = take j ?C @ drop (Suc j) ?C"
        by (simp add: clients_untag_client)
      from True have tk: "take j (take j ?C @ drop (Suc j) ?C) = take j ?C"
        and dr: "drop j (take j ?C @ drop (Suc j) ?C) = drop (Suc j) ?C"
        by simp_all
      have sub: "set (take j (clients (tag_of ?s1 tag))) \<subseteq> set rs"
        unfolding C1 tk by (rule "1.prems"(2))
      from True notmem found "1.prems"(1)
      have unf: "luaA_tag_clients_untag tag tbl j s = luaA_tag_clients_untag tag tbl j ?s1"
        by (subst luaA_tag_clients_untag.simps [of tag tbl j s]) simp
      from found notmem "1.prems"(1)
      have f: "luaA_tag_clients_found tbl (?C ! j) = Inr False"
        by simp
      from "1.IH"(1) [OF True refl f _ "1.prems"(1) sub]
      have "fst (luaA_tag_clients_untag tag tbl j ?s1) = Inr () \<and>
        clients (tag_of (snd (luaA_tag_clients_untag tag tbl j ?s1)) tag) =
          take j (clients (tag_of ?s1 tag)) @
          filter (\<lambda>c. c \<in> set rs) (drop j (clients (tag_of ?s1 tag)))"
        by simp
      then have "fst (luaA_tag_clients_untag tag tbl j ?s1) = Inr () \<and>
        clients (tag_of (snd (luaA_tag_clients_untag tag tbl j ?s1)) tag) =
          take j ?C @ filter (\<lambda>c. c \<in> set rs) (drop (Suc j) ?C)"
        unfolding C1 tk dr .
      with notmem show ?thesis
        unfolding unf by (simp add: d)
    qed
  qed
qed

lemma luaA_tag_clients_tag_clients:
  "fst (luaA_tag_clients_tag (LTag t) (map LClient rs) s) = Inr () \<and>
   clients (tag_of (snd (luaA_tag_clients_tag (LTag t) (map LClient rs) s)) t) =
     clients (tag_of s t) @
     first_occurrences (filter (\<lambda>r. r \<notin> set (clients (tag_of s t))) rs)"
proof (induction rs arbitrary: s)
  case Nil
  then show ?case by simp
next
  case (Cons r rs)
  obtain s1 where tc: "tag_client (LTag t) r s = (Inr (), s1)"
    by (simp add: tag_client_eq)
  then have step: "luaA_tag_clients_tag (LTag t) (map LClient (r # rs)) s =
      luaA_tag_clients_tag (LTag t) (map LClient rs) s1"
    by simp
  from tc have s1: "s1 = snd (tag_client (LTag t) r s)"
    by simp
  show ?case
  proof (cases "r \<in> set (clients (tag_of s t))")
    case True
    then have "clients (tag_of s1 t) = clients (tag_of s t)"
      unfolding s1 by (simp add: clients_tag_client)
    with Cons.IH [of s1] True show ?thesis
      unfolding step by simp
  next
    case False
    then have C1: "clients (tag_of s1 t) = clients (tag_of s t) @ [r]"
      unfolding s1 by (simp add: clients_tag_client)
    have "filter (\<lambda>x. x \<notin> set (clients (tag_of s t) @ [r])) rs =
        filter (\<lambda>y. y \<noteq> r) (filter (\<lambda>x. x \<notin> set (clients (tag_of s t))) rs)"
      by (induction rs) auto
    with Cons.IH [of s1] False C1 show ?thesis
      unfolding step by (simp add: first_occurrences_Cons)
  qed
qed

subsection \<open>Reconciliation with a table that holds something else than a client\<close>

lemma luaA_tag_clients_found_bad:
  "luaC_checkuclass bad ''Client'' = Inl e \<Longrightarrow>
   luaA_tag_clients_found (map LClient pre @ bad # rest) c =
     (if c \<in> set pre then Inr True else Inl e)"
  by (induction pre) auto

lemma luaA_tag_clients_untag_bad:
  "luaC_checkuclass bad ''Client'' = Inl e \<Longrightarrow> tbl = map LClient pre @ bad # rest \<Longrightarrow>
   set (take j (clients (tag_of s t))) \<subseteq> set pre \<Longrightarrow>
   luaA_tag_clients_untag t tbl j s =
     (if set (clients (tag_of s t)) \<subseteq> set pre then (Inr (), s) else (Inl e, s))"
proof (induction t tbl j s rule: luaA_tag_clients_untag.induct)
  case (1 tag tbl j s)
  let ?C = "clients (tag_of s tag)"
  show ?case
  proof (cases "j < length ?C")
    case False
    with "1.prems"(3) show ?thesis
      by (subst luaA_tag_clients_untag.simps [of tag tbl j s]) simp
  next
    case True
    from "1.prems"(1,2)
    have found: "luaA_tag_clients_found tbl (?C ! j) = (if ?C ! j \<in> set pre then Inr True else Inl e)"
      by (simp add: luaA_tag_clients_found_bad)
    show ?thesis
    proof (cases "?C ! j \<in> set pre")
      case mem: True
      with found have f: "luaA_tag_clients_found tbl (?C ! j) = Inr True"
        by simp
      from True mem "1.prems"(3) have sub: "set (take (j + 1) ?C) \<subseteq> set pre"
        by (simp add: take_Suc_conv_app_nth)
      from True f
      have unf: "luaA_tag_clients_untag tag tbl j s = luaA_tag_clients_untag tag tbl (j + 1) s"
        by (subst luaA_tag_clients_untag.simps [of tag tbl j s]) simp
      from "1.IH"(2) [OF True refl f _ "1.prems"(1,2) sub] show ?thesis
        unfolding unf by simp
    next
      case notmem: False
      with found have f: "luaA_tag_clients_found tbl (?C ! j) = Inl e"
        by simp
      from True have "?C ! j \<in> set ?C"
        by simp
      with notmem have "\<not> set ?C \<subseteq> set pre"
        by blast
      with True f show ?thesis
        by (subst luaA_tag_clients_untag.simps [of tag tbl j s]) simp
    qed
  qed
qed

lemma luaA_tag_clients_tag_bad:
  "luaC_checkuclass bad ''Client'' = Inl e \<Longrightarrow>
   luaA_tag_clients_tag (LTag t) (map LClient pre @ bad # rest) s =
     (Inl e, exec_ops (map (Tag_client t) pre) s)"
proof (induction pre arbitrary: s)
  case Nil
  then show ?case by simp
next
  case (Cons r pre)
  obtain s1 where tc: "tag_client (LTag t) r s = (Inr (), s1)"
    by (simp add: tag_client_eq)
  with Cons.IH [OF Cons.prems, of s1] show ?case
    by simp
qed

lemma clients_exec_tag_clients:
  "clients (tag_of (exec_ops (map (Tag_client t) rs) s) t) =
     clients (tag_of s t) @
     first_occurrences (filter (\<lambda>r. r \<notin> set (clients (tag_of s t))) rs)"
proof (induction rs arbitrary: s)
  case Nil
  then show ?case by simp
next
  case (Cons r rs)
  let ?s1 = "snd (tag_client (LTag t) r s)"
  show ?case
  proof (cases "r \<in> set (clients (tag_of s t))")
    case True
    then have "clients (tag_of ?s1 t) = clients (tag_of s t)"
      by (simp add: clients_tag_client)
    with Cons.IH [of ?s1] True show ?thesis
      by simp
  next
    case False
    then have C1: "clients (tag_of ?s1 t) = clients (tag_of s t) @ [r]"
      by (simp add: clients_tag_client)
    have "filter (\<lambda>x. x \<notin> set (clients (tag_of s t) @ [r])) rs =
        filter (\<lambda>y. y \<noteq> r) (filter (\<lambda>x. x \<notin> set (clients (tag_of s t))) rs)"
      by (induction rs) auto
    with Cons.IH [of ?s1] False C1 show ?thesis
      by (simp add: first_occurrences_Cons)
  qed
qed

subsection \<open>The registry holds the activated tags, each once\<close>

lemma registry_consistent_init: "registry_consistent init_state"
  by (simp add: registry_consistent_def)

lemma registry_consistent_untag_client:
  "registry_consistent s \<Longrightarrow> registry_consistent (untag_client c t s)"
  by (simp add: registry_consistent_def)

lemma registry_consistent_tag_client:
  "registry_consistent s \<Longrightarrow> registry_consistent (snd (tag_client v c s))"
  by (simp add: registry_consistent_def)

lemma registry_consistent_exec_op:
  "registry_consistent s \<Longrightarrow> registry_consistent (exec_op x s)"
proof (cases x)
  case (Activate t)
  assume "registry_consistent s"
  with Activate show ?thesis
    by (auto simp: registry_consistent_def activate_eq Let_def tag_of_def)
next
  case (Deactivate t)
  assume "registry_consistent s"
  with Deactivate show ?thesis
    by (auto simp: registry_consistent_def deactivate_eq Let_def tag_of_def)
next
  case (Set_selected t b)
  assume "registry_consistent s"
  with Set_selected show ?thesis
    by (auto simp: registry_consistent_def set_selected_eq Let_def tag_of_def)
next
  case (Set_clients t R)
  assume "registry_consistent s"
  then have "registry_consistent (snd (luaA_tag_clients [LTag t, LTable R] s))"
    by (intro luaA_tag_clients_preserves [where P = registry_consistent]
        registry_consistent_untag_client registry_consistent_tag_client)
  with Set_clients show ?thesis
    by (simp add: set_clients_def)
qed (simp_all add: registry_consistent_untag_client registry_consistent_tag_client)

lemma registry_consistent_exec_ops:
  "registry_consistent s \<Longrightarrow> registry_consistent (exec_ops xs s)"
  by (induction xs arbitrary: s) (simp_all add: registry_consistent_exec_op)

lemma registry_consistent_once:
  "registry_consistent s \<Longrightarrow> count_list (tags (wld s)) t \<le> 1"
  using distinct_count_le_1 [of "tags (wld s)" t] by (simp add: registry_consistent_def)

section \<open>The claims\<close>

text \<open>
  Claim C10. Calling the \<open>clients\<close> method with the tag alone (no replacement table) is
  a pure query: it returns the member list in storage order and leaves the whole state
  as it was, the log of outgoing calls included, so that nothing is emitted and no
  collaborator is called.
\<close>

theorem clients_query_pure:
  "luaA_tag_clients [LTag t] s = (Inr [LTable (map LClient (clients (tag_of s t)))], s)"
  by (simp add: luaA_tag_clients_def lua_index_def lua_gettop_def)

text \<open>
  Claim C3 says that reading \<open>activated\<close> returns the tag's activated flag. The getter
  reads \<^verbatim>\<open>tag->selected\<close> instead: for tag 0, activated from the start state and never
  selected, the flag is set, the tag is in the registry, and the getter returns \<open>false\<close>.
\<close>

theorem activated_getter_returns_selected:
  "activated (tag_of (snd (activate 0 init_state)) 0) \<and>
   0 \<in> set (tags (wld (snd (activate 0 init_state)))) \<and>
   fst (lunaL_getter_tag_activated [LTag 0] (snd (activate 0 init_state))) = Inr [LBoolean False]"
  by (simp add: activate_eq lunaL_getter_tag_activated_def lua_index_def Let_def tag_of_def
      init_state_def init_world_def lunaL_tag_alloc_def)

text \<open>
  Claim C4. Deactivating a tag that is activated and selected (and, by I2, at most once
  in the registry: \<open>registry_consistent_once\<close>) succeeds and leaves it neither selected
  nor activated and out of the registry. The calls it makes are, in this order: the
  \<open>property.selected\<close> signal, the banning update, the release of the registry's
  reference, the two desktop syncs, the \<open>property.activated\<close> signal. Both signals see
  the final memory.
\<close>

theorem deactivate_forces_deselection:
  assumes "activated (tag_of s t)" and "selected (tag_of s t)"
    and "count_list (tags (wld s)) t \<le> 1"
  shows "fst (deactivate t s) = Inr [] \<and>
    \<not> selected (tag_of (snd (deactivate t s)) t) \<and>
    \<not> activated (tag_of (snd (deactivate t s)) t) \<and>
    t \<notin> set (tags (wld (snd (deactivate t s)))) \<and>
    trace (snd (deactivate t s)) = trace s @
      [Luna_object_emit_signal (LTag t) '':property.selected'' [] (wld (snd (deactivate t s))),
       Banning_need_update,
       Luna_object_unref t,
       Ewmh_update_net_numbers_of_desktop,
       Ewmh_update_net_desktop_names,
       Luna_object_emit_signal (LTag t) '':property.activated'' [] (wld (snd (deactivate t s)))]"
  using assms by (simp add: deactivate_eq Let_def tag_of_def not_in_remove1_once)

theorem deactivate_forces_deselection_witness:
  "activated (tag_of (exec_ops [Activate 0, Set_selected 0 True] init_state) 0) \<and>
   selected (tag_of (exec_ops [Activate 0, Set_selected 0 True] init_state) 0) \<and>
   count_list (tags (wld (exec_ops [Activate 0, Set_selected 0 True] init_state))) 0 \<le> 1 \<and>
   \<not> selected (tag_of (snd (deactivate 0
        (exec_ops [Activate 0, Set_selected 0 True] init_state))) 0) \<and>
   0 \<notin> set (tags (wld (snd (deactivate 0
        (exec_ops [Activate 0, Set_selected 0 True] init_state)))))"
proof -
  let ?s = "exec_ops [Activate 0, Set_selected 0 True] init_state"
  have a: "activated (tag_of ?s 0)" and b: "selected (tag_of ?s 0)"
    and c: "count_list (tags (wld ?s)) 0 \<le> 1"
    using activate_set_selected_init by simp_all
  from deactivate_forces_deselection [OF a b c] a b c show ?thesis
    by blast
qed

text \<open>
  Claim C5. A \<open>tag_client\<close> that adds the edge, and an \<open>untag_client\<close> that removes it,
  make exactly the calls listed: one desktop sync for the client, one workarea
  recompute for the client's screen, and two signals, first on the client with the tag
  as argument and then on the tag with the client as argument. Both signals see the
  memory of the state the call returns, where the member list is already updated.
\<close>

theorem edge_change_effects:
  "(c \<notin> set (clients (tag_of s t)) \<longrightarrow>
      clients (tag_of (snd (tag_client (LTag t) c s)) t) = clients (tag_of s t) @ [c] \<and>
      trace (snd (tag_client (LTag t) c s)) = trace s @
        [Luna_object_ref t,
         Ewmh_client_update_desktop c,
         Banning_need_update,
         Screen_update_workarea (client_screen (wld s) c),
         Luna_object_emit_signal (LClient c) ''tagged'' [LTag t]
           (wld (snd (tag_client (LTag t) c s))),
         Luna_object_emit_signal (LTag t) ''tagged'' [LClient c]
           (wld (snd (tag_client (LTag t) c s)))]) \<and>
   (c \<in> set (clients (tag_of s t)) \<longrightarrow>
      clients (tag_of (untag_client c t s) t) = remove1 c (clients (tag_of s t)) \<and>
      trace (untag_client c t s) = trace s @
        [Banning_need_update,
         Ewmh_client_update_desktop c,
         Screen_update_workarea (client_screen (wld s) c),
         Luna_object_emit_signal (LClient c) ''untagged'' [LTag t] (wld (untag_client c t s)),
         Luna_object_emit_signal (LTag t) ''untagged'' [LClient c] (wld (untag_client c t s)),
         Luna_object_unref t])"
  by (simp add: tag_client_eq untag_client_eq tag_client_emit_signal_eq collab_defs)

theorem edge_change_effects_witness:
  "1 \<notin> set (clients (tag_of init_state 0)) \<and>
   clients (tag_of (snd (tag_client (LTag 0) 1 init_state)) 0) = [1] \<and>
   1 \<in> set (clients (tag_of (snd (tag_client (LTag 0) 1 init_state)) 0)) \<and>
   clients (tag_of (untag_client 1 0 (snd (tag_client (LTag 0) 1 init_state))) 0) = []"
proof -
  let ?s1 = "snd (tag_client (LTag 0) 1 init_state)"
  have a: "1 \<notin> set (clients (tag_of init_state 0))"
    by simp
  from edge_change_effects [of 1 init_state 0] a
  have b: "clients (tag_of ?s1 0) = [1]"
    by simp
  then have c: "1 \<in> set (clients (tag_of ?s1 0))"
    by simp
  from edge_change_effects [of 1 ?s1 0] b c
  have "clients (tag_of (untag_client 1 0 ?s1) 0) = []"
    by simp
  with a b c show ?thesis
    by blast
qed

text \<open>
  Claim C7. Repeating \<open>activate\<close>, \<open>deactivate\<close>, \<open>tag_client\<close> or \<open>untag_client\<close> right
  after the same call is a no-op. For \<open>activate\<close>, \<open>deactivate\<close> and \<open>untag_client\<close> the
  state, its log included, is the same; the second \<open>tag_client\<close> takes a reference and
  gives it back, leaves the memory as it is and emits no signal. For \<open>untag_client\<close> the
  member list is taken to be free of duplicates (I1, which every operation keeps:
  \<open>distinct_exec_op\<close>).
\<close>

theorem repeated_call_is_noop:
  "activate t (snd (activate t s)) = (Inr [], snd (activate t s)) \<and>
   deactivate t (snd (deactivate t s)) = (Inr [], snd (deactivate t s)) \<and>
   fst (tag_client (LTag t) c (snd (tag_client (LTag t) c s))) = Inr () \<and>
   wld (snd (tag_client (LTag t) c (snd (tag_client (LTag t) c s)))) =
     wld (snd (tag_client (LTag t) c s)) \<and>
   trace (snd (tag_client (LTag t) c (snd (tag_client (LTag t) c s)))) =
     trace (snd (tag_client (LTag t) c s)) @ [Luna_object_ref t, Luna_object_unref t] \<and>
   filter is_signal (trace (snd (tag_client (LTag t) c (snd (tag_client (LTag t) c s))))) =
     filter is_signal (trace (snd (tag_client (LTag t) c s))) \<and>
   (distinct (clients (tag_of s t)) \<longrightarrow>
      untag_client c t (untag_client c t s) = untag_client c t s)"
proof -
  have act: "activate t (snd (activate t s)) = (Inr [], snd (activate t s))"
    by (simp add: activate_eq [of t "snd (activate t s)"])
       (simp add: activate_eq Let_def tag_of_def)
  have deact: "deactivate t (snd (deactivate t s)) = (Inr [], snd (deactivate t s))"
    by (simp add: deactivate_eq [of t "snd (deactivate t s)"])
       (simp add: deactivate_eq Let_def tag_of_def)
  have mem: "c \<in> set (clients (tag_of (snd (tag_client (LTag t) c s)) t))"
    by (simp add: clients_tag_client)
  have tag: "tag_client (LTag t) c (snd (tag_client (LTag t) c s)) =
      (Inr (), luna_object_unref t (luna_object_ref t (snd (tag_client (LTag t) c s))))"
    using mem by (simp add: tag_client_eq [of t c "snd (tag_client (LTag t) c s)"])
  have untag: "untag_client c t (untag_client c t s) = untag_client c t s"
    if "distinct (clients (tag_of s t))"
  proof -
    from that have "c \<notin> set (clients (tag_of (untag_client c t s) t))"
      by (simp add: clients_untag_client)
    then show ?thesis
      by (simp add: untag_client_eq [of c t "untag_client c t s"])
  qed
  from act deact untag show ?thesis
    by (simp add: tag collab_defs)
qed

theorem repeated_call_is_noop_witness:
  "distinct (clients (tag_of (snd (tag_client (LTag 0) 1 init_state)) 0)) \<and>
   1 \<in> set (clients (tag_of (snd (tag_client (LTag 0) 1 init_state)) 0)) \<and>
   untag_client 1 0 (untag_client 1 0 (snd (tag_client (LTag 0) 1 init_state))) =
     untag_client 1 0 (snd (tag_client (LTag 0) 1 init_state))"
proof -
  have a: "clients (tag_of (snd (tag_client (LTag 0) 1 init_state)) 0) = [1]"
    by (simp add: clients_tag_client)
  then have b: "distinct (clients (tag_of (snd (tag_client (LTag 0) 1 init_state)) 0))"
    by simp
  from repeated_call_is_noop [of 0 "snd (tag_client (LTag 0) 1 init_state)" 1] a b
  show ?thesis
    by simp
qed

text \<open>
  Claim C8. \<open>tags_get_current_or_first_selected_index\<close> returns the index of the first
  registry tag that is selected and has the focused client among its members, when a
  client is focused and there is such a tag; failing that, the index of the first
  selected tag; failing that, 0 (also for an empty registry).
\<close>

theorem current_or_first_selected_index_spec:
  "(focus_client (wld s) = Some fc \<and> i < length (tags (wld s)) \<and>
      selected (tag_of s (tags (wld s) ! i)) \<and>
      fc \<in> set (clients (tag_of s (tags (wld s) ! i))) \<and>
      (\<forall>j<i. \<not> (selected (tag_of s (tags (wld s) ! j)) \<and>
                 fc \<in> set (clients (tag_of s (tags (wld s) ! j)))))
    \<longrightarrow> tags_get_current_or_first_selected_index s = i) \<and>
   ((\<forall>c. focus_client (wld s) = Some c \<longrightarrow>
        (\<forall>j<length (tags (wld s)).
           \<not> (selected (tag_of s (tags (wld s) ! j)) \<and>
              c \<in> set (clients (tag_of s (tags (wld s) ! j)))))) \<and>
      i < length (tags (wld s)) \<and> selected (tag_of s (tags (wld s) ! i)) \<and>
      (\<forall>j<i. \<not> selected (tag_of s (tags (wld s) ! j)))
    \<longrightarrow> tags_get_current_or_first_selected_index s = i) \<and>
   ((\<forall>j<length (tags (wld s)). \<not> selected (tag_of s (tags (wld s) ! j)))
    \<longrightarrow> tags_get_current_or_first_selected_index s = 0)"
proof (intro conjI impI)
  assume a: "focus_client (wld s) = Some fc \<and> i < length (tags (wld s)) \<and>
      selected (tag_of s (tags (wld s) ! i)) \<and>
      fc \<in> set (clients (tag_of s (tags (wld s) ! i))) \<and>
      (\<forall>j<i. \<not> (selected (tag_of s (tags (wld s) ! j)) \<and>
                 fc \<in> set (clients (tag_of s (tags (wld s) ! j)))))"
  then have "current_index_from fc 0 s = Some i"
    by (intro current_index_from_first) simp_all
  with a show "tags_get_current_or_first_selected_index s = i"
    by (simp add: tags_get_current_or_first_selected_index_def)
next
  assume a: "(\<forall>c. focus_client (wld s) = Some c \<longrightarrow>
        (\<forall>j<length (tags (wld s)).
           \<not> (selected (tag_of s (tags (wld s) ! j)) \<and>
              c \<in> set (clients (tag_of s (tags (wld s) ! j)))))) \<and>
      i < length (tags (wld s)) \<and> selected (tag_of s (tags (wld s) ! i)) \<and>
      (\<forall>j<i. \<not> selected (tag_of s (tags (wld s) ! j)))"
  then have first: "first_selected_index_from 0 s = Some i"
    by (intro first_selected_index_from_first) simp_all
  have "current_index_from c 0 s = None" if "focus_client (wld s) = Some c" for c
    using a that by (intro current_index_from_none) simp
  with first show "tags_get_current_or_first_selected_index s = i"
    by (simp add: tags_get_current_or_first_selected_index_def split: option.splits)
next
  assume a: "\<forall>j<length (tags (wld s)). \<not> selected (tag_of s (tags (wld s) ! j))"
  then have first: "first_selected_index_from 0 s = None"
    by (intro first_selected_index_from_none) simp
  have "current_index_from c 0 s = None" for c
    using a by (intro current_index_from_none) simp
  with first show "tags_get_current_or_first_selected_index s = 0"
    by (simp add: tags_get_current_or_first_selected_index_def split: option.splits)
qed

theorem current_or_first_selected_index_spec_witness:
  "tags_get_current_or_first_selected_index focus_state = 2 \<and>
   tags_get_current_or_first_selected_index unfocused_state = 0 \<and>
   tags_get_current_or_first_selected_index init_state = 0 \<and>
   tags (wld init_state) = []"
proof -
  have none_before: "\<forall>j<2. \<not> (selected (tag_of focus_state (tags (wld focus_state) ! j)) \<and>
      7 \<in> set (clients (tag_of focus_state (tags (wld focus_state) ! j))))"
  proof (intro allI impI)
    fix j :: nat
    assume "j < 2"
    then consider "j = 0" | "j = Suc 0" by arith
    then show "\<not> (selected (tag_of focus_state (tags (wld focus_state) ! j)) \<and>
      7 \<in> set (clients (tag_of focus_state (tags (wld focus_state) ! j))))"
      by cases (simp_all add: focus_state_simps)
  qed
  have "tags_get_current_or_first_selected_index focus_state = 2"
    using current_or_first_selected_index_spec [of focus_state 7 2] none_before
    by (simp add: focus_state_simps)
  moreover have "tags_get_current_or_first_selected_index unfocused_state = 0"
    using current_or_first_selected_index_spec [of unfocused_state 7 0]
    by (simp add: focus_state_simps)
  moreover have "tags_get_current_or_first_selected_index init_state = 0"
    using current_or_first_selected_index_spec [of init_state 7 0]
    by simp
  ultimately show ?thesis by simp
qed

text \<open>
  Claim C6. Whatever sequence of public operations runs, a member list that holds no
  client twice (as the empty list of a new tag does) holds no client twice afterwards;
  so no client occurs in it more than once, however often it is tagged.
\<close>

theorem no_duplicate_clients:
  "distinct (clients (tag_of s t)) \<Longrightarrow>
   distinct (clients (tag_of (exec_ops ops s) t)) \<and>
   count_list (clients (tag_of (exec_ops ops s) t)) c \<le> 1"
proof (induction ops arbitrary: s)
  case Nil
  then show ?case
    using distinct_count_le_1 [of "clients (tag_of s t)" c] by simp
next
  case (Cons x ops)
  from Cons.prems have "distinct (clients (tag_of (exec_op x s) t))"
    by (rule distinct_exec_op)
  from Cons.IH [OF this] show ?case
    by simp
qed

theorem no_duplicate_clients_witness:
  "distinct (clients (tag_of init_state 0)) \<and>
   clients (tag_of (exec_ops [Tag_client 0 1, Tag_client 0 1, Tag_client 0 2] init_state) 0) = [1, 2] \<and>
   count_list (clients (tag_of
     (exec_ops [Tag_client 0 1, Tag_client 0 1, Tag_client 0 2] init_state) 0)) 1 \<le> 1"
proof -
  have d: "distinct (clients (tag_of init_state 0))" by simp
  have "clients (tag_of (exec_ops [Tag_client 0 1, Tag_client 0 1, Tag_client 0 2] init_state) 0) = [1, 2]"
    by (simp add: clients_tag_client)
  with no_duplicate_clients [OF d, of "[Tag_client 0 1, Tag_client 0 1, Tag_client 0 2]" 1] d
  show ?thesis by simp
qed

text \<open>
  Claim C2, as the code has it. Every public operation keeps I3 at every tag, except
  \<open>set_selected(t, true)\<close> on a tag that is not activated: \<^verbatim>\<open>tag_view\<close> does not look at
  the activated flag.
\<close>

theorem inactive_unselected_preserved:
  "inactive_implies_unselected s t \<Longrightarrow> \<not> selects_inactive x s \<Longrightarrow>
   inactive_implies_unselected (exec_op x s) t"
proof (cases x)
  case (Activate t')
  assume "inactive_implies_unselected s t"
  with Activate show ?thesis
    by (simp add: inactive_implies_unselected_def activate_eq Let_def tag_of_def)
next
  case (Deactivate t')
  assume "inactive_implies_unselected s t"
  with Deactivate show ?thesis
    by (simp add: inactive_implies_unselected_def deactivate_eq Let_def tag_of_def)
next
  case (Set_selected t' b)
  assume "inactive_implies_unselected s t" and "\<not> selects_inactive x s"
  with Set_selected show ?thesis
    by (auto simp: inactive_implies_unselected_def set_selected_eq Let_def tag_of_def)
next
  case (Tag_client t' c)
  assume "inactive_implies_unselected s t"
  with Tag_client show ?thesis
    by (simp add: inactive_unselected_tag_client)
next
  case (Untag_client c t')
  assume "inactive_implies_unselected s t"
  with Untag_client show ?thesis
    by (simp add: inactive_unselected_untag_client)
next
  case (Set_clients t' R)
  assume "inactive_implies_unselected s t"
  then have "inactive_implies_unselected (snd (luaA_tag_clients [LTag t', LTable R] s)) t"
    by (intro luaA_tag_clients_preserves [where P = "\<lambda>s. inactive_implies_unselected s t"]
        inactive_unselected_untag_client inactive_unselected_tag_client)
  with Set_clients show ?thesis
    by (simp add: set_clients_def)
qed

theorem inactive_unselected_preserved_witness:
  "inactive_implies_unselected (exec_ops [Activate 0, Set_selected 0 True] init_state) 0 \<and>
   selected (tag_of (exec_ops [Activate 0, Set_selected 0 True] init_state) 0) \<and>
   \<not> selects_inactive (Deactivate 0) (exec_ops [Activate 0, Set_selected 0 True] init_state) \<and>
   inactive_implies_unselected
     (exec_op (Deactivate 0) (exec_ops [Activate 0, Set_selected 0 True] init_state)) 0 \<and>
   \<not> activated (tag_of
     (exec_op (Deactivate 0) (exec_ops [Activate 0, Set_selected 0 True] init_state)) 0)"
proof -
  let ?s = "exec_ops [Activate 0, Set_selected 0 True] init_state"
  have a: "inactive_implies_unselected ?s 0"
    using activate_set_selected_init by (simp add: inactive_implies_unselected_def)
  have b: "\<not> selects_inactive (Deactivate 0) ?s"
    by simp
  have c: "\<not> activated (tag_of (exec_op (Deactivate 0) ?s) 0)"
    by (simp add: deactivate_eq Let_def tag_of_def)
  from inactive_unselected_preserved [OF a b] a b c activate_set_selected_init
  show ?thesis by simp
qed

theorem select_inactive_breaks_invariant:
  "inactive_implies_unselected init_state 0 \<and>
   \<not> inactive_implies_unselected (exec_op (Set_selected 0 True) init_state) 0"
  by (simp add: inactive_implies_unselected_def set_selected_eq Let_def tag_of_def
      init_state_def init_world_def lunaL_tag_alloc_def)

text \<open>
  Claim C1. With a table \<open>R\<close> of clients only, \<open>set_clients\<close> succeeds and returns the new
  member list, which holds exactly the clients of \<open>R\<close>: first the former members that
  \<open>R\<close> names, in their former order, then the clients of \<open>R\<close> that were not members, in
  the order in which \<open>R\<close> first names them.
\<close>

theorem set_clients_reconciles:
  "fst (set_clients t (map LClient R) s) =
     Inr [LTable (map LClient (clients (tag_of (snd (set_clients t (map LClient R) s)) t)))] \<and>
   set (clients (tag_of (snd (set_clients t (map LClient R) s)) t)) = set R \<and>
   clients (tag_of (snd (set_clients t (map LClient R) s)) t) =
     filter (\<lambda>c. c \<in> set R) (clients (tag_of s t)) @
     first_occurrences (filter (\<lambda>r. r \<notin> set (clients (tag_of s t))) R)"
proof -
  obtain r1 s1 where p1: "luaA_tag_clients_untag t (map LClient R) 0 s = (r1, s1)"
    by (cases "luaA_tag_clients_untag t (map LClient R) 0 s")
  from luaA_tag_clients_untag_clients [of "map LClient R" R 0 s t] p1
  have r1: "r1 = Inr ()"
    and C1: "clients (tag_of s1 t) = filter (\<lambda>c. c \<in> set R) (clients (tag_of s t))"
    by simp_all
  obtain r2 s2 where p2: "luaA_tag_clients_tag (LTag t) (map LClient R) s1 = (r2, s2)"
    by (cases "luaA_tag_clients_tag (LTag t) (map LClient R) s1")
  from luaA_tag_clients_tag_clients [of t R s1] p2 C1
  have r2: "r2 = Inr ()"
    and C2: "clients (tag_of s2 t) = filter (\<lambda>c. c \<in> set R) (clients (tag_of s t)) @
        first_occurrences (filter (\<lambda>r. r \<notin> set (filter (\<lambda>c. c \<in> set R) (clients (tag_of s t)))) R)"
    by simp_all
  have same: "filter (\<lambda>r. r \<notin> set (filter (\<lambda>c. c \<in> set R) (clients (tag_of s t)))) R =
      filter (\<lambda>r. r \<notin> set (clients (tag_of s t))) R"
    by (rule filter_cong) auto
  have res: "set_clients t (map LClient R) s =
      (Inr [LTable (map LClient (clients (tag_of s2 t)))], s2)"
    by (simp add: set_clients_def luaA_tag_clients_def lua_index_def lua_gettop_def p1 r1 p2 r2)
  have "set (clients (tag_of s2 t)) = set R"
    by (auto simp: C2 same)
  with res C2 same show ?thesis
    by simp
qed

text \<open>
  Claim C9. When the table holds a value that is not a client (\<open>bad\<close>, after the
  clients \<open>pre\<close>), \<open>set_clients\<close> fails with the type error of that value, and the state
  it leaves is the state reached so far. If every member is among \<open>pre\<close>, the first pass
  changes nothing and the second pass has tagged the clients of \<open>pre\<close>, which stay
  tagged; otherwise the first pass fails at the first member that is not among \<open>pre\<close>,
  before any change. In neither case has a client been untagged.
\<close>

theorem set_clients_bad_element:
  assumes "luaC_checkuclass bad ''Client'' = Inl e"
  shows "fst (set_clients t (map LClient pre @ bad # rest) s) = Inl e \<and>
    e = Type_error ''Client'' \<and>
    snd (set_clients t (map LClient pre @ bad # rest) s) =
      (if set (clients (tag_of s t)) \<subseteq> set pre
       then exec_ops (map (Tag_client t) pre) s else s) \<and>
    clients (tag_of (snd (set_clients t (map LClient pre @ bad # rest) s)) t) =
      (if set (clients (tag_of s t)) \<subseteq> set pre
       then clients (tag_of s t) @
            first_occurrences (filter (\<lambda>r. r \<notin> set (clients (tag_of s t))) pre)
       else clients (tag_of s t))"
proof -
  from assms have e: "e = Type_error ''Client''"
    by (cases bad) (simp_all split: if_splits)
  have p1: "luaA_tag_clients_untag t (map LClient pre @ bad # rest) 0 s =
      (if set (clients (tag_of s t)) \<subseteq> set pre then (Inr (), s) else (Inl e, s))"
    using assms by (intro luaA_tag_clients_untag_bad) simp_all
  have p2: "luaA_tag_clients_tag (LTag t) (map LClient pre @ bad # rest) s =
      (Inl e, exec_ops (map (Tag_client t) pre) s)"
    using assms by (rule luaA_tag_clients_tag_bad)
  have res: "set_clients t (map LClient pre @ bad # rest) s =
      (Inl e, if set (clients (tag_of s t)) \<subseteq> set pre
              then exec_ops (map (Tag_client t) pre) s else s)"
    by (simp add: set_clients_def luaA_tag_clients_def lua_index_def lua_gettop_def p1 p2)
  show ?thesis
    unfolding res using e by (simp add: clients_exec_tag_clients)
qed

theorem set_clients_bad_element_witness:
  "luaC_checkuclass (LNumber 5) ''Client'' = Inl (Type_error ''Client'') \<and>
   clients (tag_of (snd (tag_client (LTag 0) 1 init_state)) 0) = [1] \<and>
   fst (set_clients 0 (map LClient [1, 2] @ LNumber 5 # [LClient 3])
     (snd (tag_client (LTag 0) 1 init_state))) = Inl (Type_error ''Client'') \<and>
   clients (tag_of (snd (set_clients 0 (map LClient [1, 2] @ LNumber 5 # [LClient 3])
     (snd (tag_client (LTag 0) 1 init_state)))) 0) = [1, 2] \<and>
   fst (set_clients 0 (map LClient [2] @ LNumber 5 # [])
     (snd (tag_client (LTag 0) 1 init_state))) = Inl (Type_error ''Client'') \<and>
   snd (set_clients 0 (map LClient [2] @ LNumber 5 # [])
     (snd (tag_client (LTag 0) 1 init_state))) = snd (tag_client (LTag 0) 1 init_state)"
proof -
  let ?s = "snd (tag_client (LTag 0) 1 init_state)"
  have bad: "luaC_checkuclass (LNumber 5) ''Client'' = Inl (Type_error ''Client'')"
    by simp
  have C: "clients (tag_of ?s 0) = [1]"
    by (simp add: clients_tag_client)
  have fo: "first_occurrences [2::nat] = [2]"
    by (simp add: first_occurrences_def)
  from set_clients_bad_element [OF bad, of 0 "[1, 2]" "[LClient 3]" ?s]
    set_clients_bad_element [OF bad, of 0 "[2]" "[]" ?s] bad C fo
  show ?thesis
    by (simp add: clients_tag_client)
qed

end
